theory Spec2Isabelle
  imports Main
begin

section \<open>Data model of the Tic Tac Toe rules engine (App.js)\<close>

text \<open>
  The two marks a player can place; \<^verbatim>\<open>currentPlayer\<close> is \<^verbatim>\<open>'X'\<close> (here \<open>MX\<close>) or
  \<^verbatim>\<open>'O'\<close> (here \<open>MO\<close>).
\<close>

datatype mark = MX | MO

text \<open>
  One slot of the JavaScript array \<^verbatim>\<open>squares\<close>: \<^verbatim>\<open>null\<close>, the string \<^verbatim>\<open>"X"\<close> or
  \<^verbatim>\<open>"O"\<close>, or a hole. A hole is a slot that was never written; it appears only when a
  store past the end of an array extends it. Reading a hole, or reading past the end,
  gives \<^verbatim>\<open>undefined\<close>, which is what \<open>Hole\<close> stands for as a value.
\<close>

datatype cell = Hole | Null | Str mark

text \<open>JavaScript truthiness of a cell: only a non-empty string is truthy.\<close>

fun truthy :: "cell \<Rightarrow> bool" where
  "truthy (Str m) = True"
| "truthy Null = False"
| "truthy Hole = False"

text \<open>\<^verbatim>\<open>squares[i]\<close>: an index past the end reads \<^verbatim>\<open>undefined\<close>.\<close>

definition read :: "cell list \<Rightarrow> nat \<Rightarrow> cell" where
  "read sq i = (if i < length sq then sq ! i else Hole)"

text \<open>
  \<^verbatim>\<open>next = squares.slice(); next[i] = v\<close>: a copy with slot \<open>i\<close> written. A store past
  the end extends the array and leaves holes in between.
\<close>

definition store :: "cell list \<Rightarrow> nat \<Rightarrow> cell \<Rightarrow> cell list" where
  "store sq i v =
     (if i < length sq then sq[i := v]
      else sq @ replicate (i - length sq) Hole @ [v])"

text \<open>The object returned by \<^verbatim>\<open>calculateWinner\<close>.\<close>

record result =
  winner :: cell
  line :: "nat list"

text \<open>The component state of \<^verbatim>\<open>App\<close>: the two \<^verbatim>\<open>useState\<close> cells.\<close>

record app_state =
  squares :: "cell list"
  xIsNext :: bool

section \<open>Win detection\<close>

text \<open>The constant table \<^verbatim>\<open>lines\<close> of \<^verbatim>\<open>calculateWinner\<close>, in source order.\<close>

definition lines :: "(nat \<times> nat \<times> nat) list" where
  "lines =
     [(0, 1, 2), (3, 4, 5), (6, 7, 8),
      (0, 3, 6), (1, 4, 7), (2, 5, 8),
      (0, 4, 8), (2, 4, 6)]"

text \<open>
  The test of the loop body:
  \<^verbatim>\<open>squares[a] && squares[a] === squares[b] && squares[a] === squares[c]\<close>.
\<close>

fun lineMatches :: "cell list \<Rightarrow> nat \<times> nat \<times> nat \<Rightarrow> bool" where
  "lineMatches sq (a, b, c) =
     (truthy (read sq a) \<and> read sq a = read sq b
        \<and> read sq a = read sq c)"

text \<open>
  The \<^verbatim>\<open>for (const [a, b, c] of lines)\<close> loop: return at the first line that passes
  the test, fall through to the no-winner object when the table is exhausted.
\<close>

fun scanLines :: "cell list \<Rightarrow> (nat \<times> nat \<times> nat) list \<Rightarrow> result" where
  "scanLines sq [] = \<lparr>winner = Null, line = []\<rparr>"
| "scanLines sq ((a, b, c) # rest) =
     (if lineMatches sq (a, b, c)
      then \<lparr>winner = read sq a, line = [a, b, c]\<rparr>
      else scanLines sq rest)"

definition calculateWinner :: "cell list \<Rightarrow> result" where
  "calculateWinner sq = scanLines sq lines"

section \<open>Derived values and event handlers of the component\<close>

text \<open>\<^verbatim>\<open>squares.every(Boolean)\<close>; \<^verbatim>\<open>every\<close> does not visit holes.\<close>

definition isBoardFull :: "cell list \<Rightarrow> bool" where
  "isBoardFull sq = list_all (\<lambda>c. c = Hole \<or> truthy c) sq"

definition isDraw :: "cell list \<Rightarrow> bool" where
  "isDraw sq = (\<not> truthy (winner (calculateWinner sq)) \<and> isBoardFull sq)"

definition gameOver :: "cell list \<Rightarrow> bool" where
  "gameOver sq = (truthy (winner (calculateWinner sq)) \<or> isDraw sq)"

definition currentPlayer :: "app_state \<Rightarrow> mark" where
  "currentPlayer s = (if xIsNext s then MX else MO)"

text \<open>The state both \<^verbatim>\<open>useState\<close> initialisers build: \<^verbatim>\<open>Array(9).fill(null)\<close>, \<^verbatim>\<open>true\<close>.\<close>

definition initialState :: app_state where
  "initialState = \<lparr>squares = replicate 9 Null, xIsNext = True\<rparr>"

text \<open>
  \<^verbatim>\<open>handleSquareClick\<close> (the spec's applyMove): a guarded transition of the state.
\<close>

definition handleSquareClick :: "app_state \<Rightarrow> nat \<Rightarrow> app_state" where
  "handleSquareClick s index =
     (if truthy (read (squares s) index) \<or> gameOver (squares s) then s
      else \<lparr>squares = store (squares s) index (Str (currentPlayer s)),
            xIsNext = \<not> xIsNext s\<rparr>)"

text \<open>\<^verbatim>\<open>resetGame\<close> (the spec's reset): it ignores the state it is invoked in.\<close>

definition resetGame :: "app_state \<Rightarrow> app_state" where
  "resetGame s = \<lparr>squares = replicate 9 Null, xIsNext = True\<rparr>"

text \<open>
  The spec's derived outcome. The component computes it on every render as the nested
  conditional behind \<^verbatim>\<open>statusText\<close>: a winner first, then \<^verbatim>\<open>isDraw\<close>, otherwise the
  game is in progress.
\<close>

datatype outcome = InProgress | Won mark "nat list" | Draw

definition evaluate :: "cell list \<Rightarrow> outcome" where
  "evaluate sq =
     (case winner (calculateWinner sq) of
        Str m \<Rightarrow> Won m (line (calculateWinner sq))
      | _ \<Rightarrow> if isDraw sq then Draw else InProgress)"

text \<open>A game: clicks applied one after the other, starting from the initial state.\<close>

definition play :: "nat list \<Rightarrow> app_state" where
  "play moves = foldl handleSquareClick initialState moves"

text \<open>The clicks the board can produce: one of its nine squares, index 0 to 8.\<close>

definition legalMoves :: "nat list \<Rightarrow> bool" where
  "legalMoves moves = list_all (\<lambda>i. i < 9) moves"

text \<open>All three cells of a line hold the value \<open>v\<close>.\<close>

fun allThree :: "cell list \<Rightarrow> nat \<times> nat \<times> nat \<Rightarrow> cell \<Rightarrow> bool" where
  "allThree sq (a, b, c) v = (read sq a = v \<and> read sq b = v \<and> read sq c = v)"

text \<open>A line is completed: its three cells hold the same mark.\<close>

definition completed :: "cell list \<Rightarrow> nat \<times> nat \<times> nat \<Rightarrow> bool" where
  "completed sq l = (allThree sq l (Str MX) \<or> allThree sq l (Str MO))"

text \<open>
  Spec-side description of the winning lines, from the grid layout of the data model
  (row = index div 3, column = index mod 3): the cells of a row, of a column and of the
  two diagonals, in increasing index order.
\<close>

definition rowCells :: "nat \<Rightarrow> nat list" where
  "rowCells r = filter (\<lambda>i. i div 3 = r) [0..<9]"

definition colCells :: "nat \<Rightarrow> nat list" where
  "colCells c = filter (\<lambda>i. i mod 3 = c) [0..<9]"

definition mainDiagonal :: "nat list" where
  "mainDiagonal = filter (\<lambda>i. i div 3 = i mod 3) [0..<9]"

definition antiDiagonal :: "nat list" where
  "antiDiagonal = filter (\<lambda>i. i div 3 + i mod 3 = 2) [0..<9]"

text \<open>
  Spec-side scan order: rows top to bottom, columns left to right, then the two
  diagonals.
\<close>

definition specLineOrder :: "nat list list" where
  "specLineOrder =
     map rowCells [0, 1, 2] @ map colCells [0, 1, 2] @ [mainDiagonal, antiDiagonal]"

section \<open>Basic facts\<close>

lemma read_store: "read (store sq i v) j = (if j = i then v else read sq j)"
  by (auto simp: read_def store_def nth_append)

lemma truthy_iff: "truthy c \<longleftrightarrow> (\<exists>m. c = Str m)"
  by (cases c) auto

lemma lineMatches_allThree:
  "lineMatches sq (a, b, c) \<longleftrightarrow> (\<exists>m. allThree sq (a, b, c) (Str m))"
  by (cases "read sq a") auto

lemma completed_iff: "completed sq l \<longleftrightarrow> (\<exists>m. allThree sq l (Str m))"
  unfolding completed_def by (metis mark.exhaust)

lemma lineMatches_completed: "lineMatches sq l = completed sq l"
  by (cases l) (simp only: lineMatches_allThree completed_iff)

lemma lineMatches_eq: "lineMatches sq = completed sq"
  by (rule ext) (rule lineMatches_completed)

subsection \<open>The scan loop\<close>

text \<open>The loop returns at the first line of the table that passes the test.\<close>

lemma scanLines_find:
  "scanLines sq ls =
     (case find (lineMatches sq) ls of
        None \<Rightarrow> \<lparr>winner = Null, line = []\<rparr>
      | Some (a, b, c) \<Rightarrow> \<lparr>winner = read sq a, line = [a, b, c]\<rparr>)"
  by (induction ls) auto

lemma scanLines_no_winner:
  "(\<forall>l\<in>set ls. \<not> lineMatches sq l) \<Longrightarrow> scanLines sq ls = \<lparr>winner = Null, line = []\<rparr>"
  by (induction ls) auto

lemma scanLines_winner:
  "\<exists>l\<in>set ls. lineMatches sq l \<Longrightarrow>
     \<exists>a b c m. (a, b, c) \<in> set ls \<and> allThree sq (a, b, c) (Str m)
        \<and> scanLines sq ls = \<lparr>winner = Str m, line = [a, b, c]\<rparr>"
proof (induction ls)
  case Nil
  then show ?case by simp
next
  case (Cons l ls)
  obtain a b c where l: "l = (a, b, c)" by (cases l) auto
  show ?case
  proof (cases "lineMatches sq l")
    case True
    then obtain m where m: "allThree sq (a, b, c) (Str m)"
      unfolding l lineMatches_allThree by blast
    from True m have "scanLines sq (l # ls) = \<lparr>winner = Str m, line = [a, b, c]\<rparr>"
      unfolding l by simp
    moreover have "(a, b, c) \<in> set (l # ls)" unfolding l by simp
    ultimately show ?thesis using m by blast
  next
    case False
    with Cons.prems have "\<exists>l\<in>set ls. lineMatches sq l" by auto
    from Cons.IH[OF this] obtain a' b' c' m where
      "(a', b', c') \<in> set ls" "allThree sq (a', b', c') (Str m)"
      "scanLines sq ls = \<lparr>winner = Str m, line = [a', b', c']\<rparr>" by blast
    moreover from this False have
      "(a', b', c') \<in> set (l # ls)"
      "scanLines sq (l # ls) = \<lparr>winner = Str m, line = [a', b', c']\<rparr>"
      unfolding l by (simp_all del: lineMatches.simps)
    ultimately show ?thesis by blast
  qed
qed

subsection \<open>The result of \<^verbatim>\<open>calculateWinner\<close>\<close>

lemma evaluate_Won_iff:
  "evaluate sq = Won W ln \<longleftrightarrow>
     winner (calculateWinner sq) = Str W \<and> line (calculateWinner sq) = ln"
  by (auto simp: evaluate_def split: cell.splits)

lemma calculateWinner_cases:
  obtains (none) "\<forall>l\<in>set lines. \<not> completed sq l"
      "calculateWinner sq = \<lparr>winner = Null, line = []\<rparr>"
  | (some) a b c m where "(a, b, c) \<in> set lines" "allThree sq (a, b, c) (Str m)"
      "calculateWinner sq = \<lparr>winner = Str m, line = [a, b, c]\<rparr>"
proof (cases "\<exists>l\<in>set lines. lineMatches sq l")
  case True
  from scanLines_winner[OF this] some show ?thesis unfolding calculateWinner_def by blast
next
  case False
  then have "\<forall>l\<in>set lines. \<not> lineMatches sq l" by blast
  from scanLines_no_winner[OF this] this none show ?thesis
    unfolding calculateWinner_def lineMatches_eq by blast
qed

lemma calculateWinner_first:
  "calculateWinner sq =
     (case find (completed sq) lines of
        None \<Rightarrow> \<lparr>winner = Null, line = []\<rparr>
      | Some (a, b, c) \<Rightarrow> \<lparr>winner = read sq a, line = [a, b, c]\<rparr>)"
  unfolding calculateWinner_def scanLines_find lineMatches_eq ..

lemma winner_iff_first:
  "winner (calculateWinner sq) = Str W \<longleftrightarrow>
     (\<exists>l. find (completed sq) lines = Some l \<and> allThree sq l (Str W))"
proof (cases "find (completed sq) lines")
  case None
  then show ?thesis by (simp add: calculateWinner_first)
next
  case (Some l)
  obtain a b c where l: "l = (a, b, c)" by (cases l) auto
  from Some have "completed sq l" by (auto simp: find_Some_iff)
  then obtain m where "allThree sq (a, b, c) (Str m)" unfolding l completed_iff by blast
  with Some show ?thesis unfolding l by (auto simp: calculateWinner_first)
qed

subsection \<open>Game over and outcome\<close>

lemma gameOver_iff: "gameOver sq \<longleftrightarrow> evaluate sq \<noteq> InProgress"
  by (auto simp: gameOver_def evaluate_def isDraw_def split: cell.splits)

lemma not_gameOver_no_line:
  assumes "\<not> gameOver sq" and "l \<in> set lines"
  shows "\<not> completed sq l"
proof (cases sq rule: calculateWinner_cases)
  case none
  with assms(2) show ?thesis by blast
next
  case (some a b c m)
  with assms(1) show ?thesis by (simp add: gameOver_def)
qed

subsection \<open>Counting marks along a game\<close>

lemma count_list_update:
  "i < length xs \<Longrightarrow>
     count_list (xs[i := v]) w + (if xs ! i = w then 1 else 0)
       = count_list xs w + (if v = w then 1 else 0)"
proof (induction xs arbitrary: i)
  case Nil
  then show ?case by simp
next
  case (Cons x xs)
  show ?case
  proof (cases i)
    case 0
    then show ?thesis by simp
  next
    case (Suc n)
    with Cons.prems have "n < length xs" by simp
    from Cons.IH[OF this] Suc show ?thesis by (simp split: if_splits)
  qed
qed

lemma count_list_store:
  assumes "\<not> truthy (read sq i)"
  shows "count_list (store sq i (Str p)) (Str m) = count_list sq (Str m) + (if p = m then 1 else 0)"
proof (cases "i < length sq")
  case True
  with assms have "sq ! i \<noteq> Str m" by (auto simp: read_def)
  with count_list_update[OF True, of "Str p" "Str m"] True show ?thesis
    by (simp add: store_def)
next
  case False
  then show ?thesis by (simp add: store_def)
qed

lemma play_snoc: "play (ms @ [i]) = handleSquareClick (play ms) i"
  by (simp add: play_def)

lemma play_counts:
  "count_list (squares (play ms)) (Str MX)
     = count_list (squares (play ms)) (Str MO) + (if xIsNext (play ms) then 0 else 1)"
proof (induction ms rule: rev_induct)
  case Nil
  show ?case by (simp add: play_def initialState_def)
next
  case (snoc i ms)
  show ?case
  proof (cases "truthy (read (squares (play ms)) i) \<or> gameOver (squares (play ms))")
    case True
    then have "handleSquareClick (play ms) i = play ms" by (simp add: handleSquareClick_def)
    with snoc show ?thesis by (simp add: play_snoc)
  next
    case False
    then have "handleSquareClick (play ms) i =
        \<lparr>squares = store (squares (play ms)) i (Str (currentPlayer (play ms))),
         xIsNext = \<not> xIsNext (play ms)\<rparr>"
      by (simp add: handleSquareClick_def)
    with False snoc show ?thesis
      by (simp add: play_snoc count_list_store currentPlayer_def)
  qed
qed

subsection \<open>Completed lines along a game\<close>

lemma allThree_store:
  assumes "\<not> completed sq l" and "allThree (store sq i (Str p)) l (Str V)"
  shows "V = p"
proof -
  obtain a b c where l: "l = (a, b, c)" by (cases l) auto
  show ?thesis
  proof (cases "i = a \<or> i = b \<or> i = c")
    case True
    with assms(2) show ?thesis unfolding l by (auto simp: read_store)
  next
    case False
    with assms(2) have "allThree sq l (Str V)" unfolding l by (simp add: read_store)
    with assms(1) show ?thesis by (simp add: completed_iff)
  qed
qed

lemma read_replicate_Null: "read (replicate n Null) a \<noteq> Str V"
  by (simp add: read_def)

lemma play_same_mark:
  "l1 \<in> set lines \<Longrightarrow> l2 \<in> set lines \<Longrightarrow>
     allThree (squares (play ms)) l1 (Str V) \<Longrightarrow> allThree (squares (play ms)) l2 (Str W)
     \<Longrightarrow> V = W"
proof (induction ms arbitrary: l1 l2 V W rule: rev_induct)
  case Nil
  obtain a b c where "l1 = (a, b, c)" by (cases l1) auto
  with Nil.prems(3) show ?case
    by (simp add: play_def initialState_def read_replicate_Null)
next
  case (snoc i ms)
  show ?case
  proof (cases "truthy (read (squares (play ms)) i) \<or> gameOver (squares (play ms))")
    case True
    then have "play (ms @ [i]) = play ms" by (simp add: play_snoc handleSquareClick_def)
    with snoc show ?thesis by metis
  next
    case False
    then have sq: "squares (play (ms @ [i])) =
        store (squares (play ms)) i (Str (currentPlayer (play ms)))"
      by (simp add: play_snoc handleSquareClick_def)
    from False have "\<not> gameOver (squares (play ms))" by simp
    then have "\<not> completed (squares (play ms)) l1" "\<not> completed (squares (play ms)) l2"
      using snoc.prems(1,2) by (simp_all add: not_gameOver_no_line)
    with snoc.prems(3,4) have "V = currentPlayer (play ms)" "W = currentPlayer (play ms)"
      unfolding sq by (auto dest: allThree_store)
    then show ?thesis by simp
  qed
qed

section \<open>The claims\<close>

text \<open>
  Claim C1, as amended. The claim says that on every board, reachable or not,
  \<open>evaluate\<close> returns winner \<open>W\<close> exactly when some winning line has all three cells
  equal to \<open>W\<close>. The scan returns at the first completed line, so what holds is: the
  winner is \<open>W\<close> exactly when the first completed line in scan order holds \<open>W\<close>;
  a winner \<open>W\<close> always has a line with all three cells \<open>W\<close>; and a line with all three
  cells \<open>W\<close> makes \<open>W\<close> the winner whenever no line is completed by the other mark.
\<close>

theorem evaluate_winner_first_completed_line:
  "((\<exists>ln. evaluate sq = Won W ln) \<longleftrightarrow>
      (\<exists>l. find (completed sq) lines = Some l \<and> allThree sq l (Str W)))
   \<and> ((\<exists>ln. evaluate sq = Won W ln) \<longrightarrow> (\<exists>l\<in>set lines. allThree sq l (Str W)))
   \<and> ((\<exists>l\<in>set lines. allThree sq l (Str W))
        \<and> (\<forall>l\<in>set lines. \<forall>V. allThree sq l (Str V) \<longrightarrow> V = W)
      \<longrightarrow> (\<exists>ln. evaluate sq = Won W ln))"
proof (intro conjI impI)
  show "(\<exists>ln. evaluate sq = Won W ln) \<longleftrightarrow>
      (\<exists>l. find (completed sq) lines = Some l \<and> allThree sq l (Str W))"
    by (simp add: evaluate_Won_iff winner_iff_first)
next
  assume "\<exists>ln. evaluate sq = Won W ln"
  then have w: "winner (calculateWinner sq) = Str W" by (auto simp: evaluate_Won_iff)
  show "\<exists>l\<in>set lines. allThree sq l (Str W)"
  proof (cases sq rule: calculateWinner_cases)
    case none
    with w show ?thesis by simp
  next
    case (some a b c m)
    with w have "m = W" by simp
    with some show ?thesis by blast
  qed
next
  assume h: "(\<exists>l\<in>set lines. allThree sq l (Str W))
        \<and> (\<forall>l\<in>set lines. \<forall>V. allThree sq l (Str V) \<longrightarrow> V = W)"
  show "\<exists>ln. evaluate sq = Won W ln"
  proof (cases sq rule: calculateWinner_cases)
    case none
    with h show ?thesis by (auto simp: completed_iff)
  next
    case (some a b c m)
    with h have "m = W" by blast
    with some show ?thesis by (simp add: evaluate_Won_iff)
  qed
qed

text \<open>
  The amended statement at a board where X has completed the top row and no line holds
  three O.
\<close>

theorem evaluate_winner_first_completed_line_witness:
  "(0, 1, 2) \<in> set lines
   \<and> allThree [Str MX, Str MX, Str MX, Str MO, Str MO, Null, Null, Null, Null]
        (0, 1, 2) (Str MX)
   \<and> list_all
        (\<lambda>l. \<not> allThree [Str MX, Str MX, Str MX, Str MO, Str MO, Null, Null, Null, Null]
                l (Str MO)) lines
   \<and> (\<exists>ln. evaluate [Str MX, Str MX, Str MX, Str MO, Str MO, Null, Null, Null, Null]
              = Won MX ln)"
proof -
  let ?b = "[Str MX, Str MX, Str MX, Str MO, Str MO, Null, Null, Null, Null]"
  have 1: "(0, 1, 2) \<in> set lines" by (simp add: lines_def)
  have 2: "allThree ?b (0, 1, 2) (Str MX)" by (simp add: read_def)
  have 3: "list_all (\<lambda>l. \<not> allThree ?b l (Str MO)) lines" by (simp add: lines_def read_def)
  have 4: "\<forall>l\<in>set lines. \<forall>V. allThree ?b l (Str V) \<longrightarrow> V = MX"
  proof (intro ballI allI impI)
    fix l V assume "l \<in> set lines" "allThree ?b l (Str V)"
    with 3 have "V \<noteq> MO" by (auto simp: list_all_iff)
    then show "V = MX" by (cases V) auto
  qed
  from 1 2 4 evaluate_winner_first_completed_line[of ?b MX]
  have "\<exists>ln. evaluate ?b = Won MX ln" by blast
  with 1 2 3 show ?thesis by blast
qed

text \<open>
  Claim C1 as stated fails on a board with the top row all O and the middle row all X:
  the line (3, 4, 5) has all three cells equal to X, yet the winner returned is O.
\<close>

theorem evaluate_winner_iff_some_line_counterexample:
  "(3, 4, 5) \<in> set lines
   \<and> allThree [Str MO, Str MO, Str MO, Str MX, Str MX, Str MX, Null, Null, Null]
        (3, 4, 5) (Str MX)
   \<and> evaluate [Str MO, Str MO, Str MO, Str MX, Str MX, Str MX, Null, Null, Null]
        = Won MO [0, 1, 2]
   \<and> winner (calculateWinner
        [Str MO, Str MO, Str MO, Str MX, Str MX, Str MX, Null, Null, Null]) \<noteq> Str MX"
  by (simp add: lines_def read_def evaluate_def calculateWinner_def)

text \<open>
  Claim C2, as amended. The claim says that on a board reached by legal play two winning
  lines are never completed together. One move can complete two lines at once; what
  legal play excludes is two completed lines holding different marks. On every board
  reached from the initial state by clicks on the nine squares, all completed lines hold
  the same mark, so the first-match rule never decides which mark wins: the winner is
  \<open>W\<close> exactly when some line has all three cells \<open>W\<close>. It can still decide which of
  two lines of that mark is reported.
\<close>

theorem reachable_completed_lines_same_mark:
  assumes "legalMoves moves"
  shows "(\<forall>l1\<in>set lines. \<forall>l2\<in>set lines. \<forall>V W.
            allThree (squares (play moves)) l1 (Str V)
              \<and> allThree (squares (play moves)) l2 (Str W) \<longrightarrow> V = W)
       \<and> (\<forall>W. (\<exists>ln. evaluate (squares (play moves)) = Won W ln)
               \<longleftrightarrow> (\<exists>l\<in>set lines. allThree (squares (play moves)) l (Str W)))"
proof (intro conjI ballI allI impI)
  fix l1 l2 V W
  assume "l1 \<in> set lines" "l2 \<in> set lines"
    "allThree (squares (play moves)) l1 (Str V) \<and> allThree (squares (play moves)) l2 (Str W)"
  then show "V = W" using play_same_mark by blast
next
  fix W
  let ?sq = "squares (play moves)"
  show "(\<exists>ln. evaluate ?sq = Won W ln) \<longleftrightarrow> (\<exists>l\<in>set lines. allThree ?sq l (Str W))"
  proof (cases ?sq rule: calculateWinner_cases)
    case none
    then show ?thesis by (auto simp: evaluate_Won_iff completed_iff)
  next
    case (some a b c m)
    show ?thesis
    proof
      assume "\<exists>ln. evaluate ?sq = Won W ln"
      with some have "m = W" by (simp add: evaluate_Won_iff)
      with some show "\<exists>l\<in>set lines. allThree ?sq l (Str W)" by blast
    next
      assume "\<exists>l\<in>set lines. allThree ?sq l (Str W)"
      then obtain l where "l \<in> set lines" "allThree ?sq l (Str W)" by blast
      with some(1,2) have "m = W" using play_same_mark by blast
      with some show "\<exists>ln. evaluate ?sq = Won W ln" by (simp add: evaluate_Won_iff)
    qed
  qed
qed

text \<open>
  The amended statement at the end of a nine-move game: the left column holds three X,
  and X is the winner.
\<close>

theorem reachable_completed_lines_same_mark_witness:
  "legalMoves [1, 4, 2, 5, 3, 7, 6, 8, 0]
   \<and> (0, 3, 6) \<in> set lines
   \<and> allThree (squares (play [1, 4, 2, 5, 3, 7, 6, 8, 0])) (0, 3, 6) (Str MX)
   \<and> (\<exists>ln. evaluate (squares (play [1, 4, 2, 5, 3, 7, 6, 8, 0])) = Won MX ln)"
proof -
  let ?ms = "[1, 4, 2, 5, 3, 7, 6, 8, 0]"
  have 1: "legalMoves ?ms" by code_simp
  have 2: "(0, 3, 6) \<in> set lines" by (simp add: lines_def)
  have 3: "allThree (squares (play ?ms)) (0, 3, 6) (Str MX)" by code_simp
  from reachable_completed_lines_same_mark[OF 1] 2 3
  have "\<exists>ln. evaluate (squares (play ?ms)) = Won MX ln" by blast
  with 1 2 3 show ?thesis by blast
qed

text \<open>
  Claim C2 as stated fails after the clicks 1, 4, 2, 5, 3, 7, 6, 8, 0. The game is in
  progress before the last click; the last click puts X in the corner and completes the
  top row and the left column together. The scan reports the top row.
\<close>

theorem reachable_two_lines_completed_counterexample:
  "legalMoves [1, 4, 2, 5, 3, 7, 6, 8, 0]
   \<and> evaluate (squares (play [1, 4, 2, 5, 3, 7, 6, 8])) = InProgress
   \<and> squares (play [1, 4, 2, 5, 3, 7, 6, 8, 0])
       = [Str MX, Str MX, Str MX, Str MX, Str MO, Str MO, Str MX, Str MO, Str MO]
   \<and> (0, 1, 2) \<in> set lines \<and> (0, 3, 6) \<in> set lines
   \<and> completed (squares (play [1, 4, 2, 5, 3, 7, 6, 8, 0])) (0, 1, 2)
   \<and> completed (squares (play [1, 4, 2, 5, 3, 7, 6, 8, 0])) (0, 3, 6)
   \<and> evaluate (squares (play [1, 4, 2, 5, 3, 7, 6, 8, 0])) = Won MX [0, 1, 2]"
  by code_simp

text \<open>
  Claim C3. A click on an occupied square, or in a game that is over (a winner exists or
  the board is a draw), returns the state as it was: the same board and the same turn.
  The handler has no failing branch; it returns in every case.
\<close>

theorem handleSquareClick_noop:
  assumes "truthy (read (squares s) i)
             \<or> (\<exists>W ln. evaluate (squares s) = Won W ln)
             \<or> evaluate (squares s) = Draw"
  shows "handleSquareClick s i = s"
proof -
  from assms have "truthy (read (squares s) i) \<or> evaluate (squares s) \<noteq> InProgress"
    by auto
  then show ?thesis by (simp add: handleSquareClick_def gameOver_iff)
qed

text \<open>
  The three cases of C3: an occupied square in a running game, a free square after X
  has won, and a square of a drawn board.
\<close>

theorem handleSquareClick_noop_witness:
  "truthy (read [Str MX, Null, Null, Null, Null, Null, Null, Null, Null] 0)
   \<and> handleSquareClick
        \<lparr>squares = [Str MX, Null, Null, Null, Null, Null, Null, Null, Null], xIsNext = False\<rparr> 0
      = \<lparr>squares = [Str MX, Null, Null, Null, Null, Null, Null, Null, Null], xIsNext = False\<rparr>
   \<and> evaluate [Str MX, Str MX, Str MX, Str MO, Str MO, Null, Null, Null, Null] = Won MX [0, 1, 2]
   \<and> handleSquareClick
        \<lparr>squares = [Str MX, Str MX, Str MX, Str MO, Str MO, Null, Null, Null, Null], xIsNext = False\<rparr> 5
      = \<lparr>squares = [Str MX, Str MX, Str MX, Str MO, Str MO, Null, Null, Null, Null], xIsNext = False\<rparr>
   \<and> evaluate [Str MX, Str MO, Str MX, Str MX, Str MO, Str MO, Str MO, Str MX, Str MX] = Draw
   \<and> handleSquareClick
        \<lparr>squares = [Str MX, Str MO, Str MX, Str MX, Str MO, Str MO, Str MO, Str MX, Str MX], xIsNext = False\<rparr> 4
      = \<lparr>squares = [Str MX, Str MO, Str MX, Str MX, Str MO, Str MO, Str MO, Str MX, Str MX], xIsNext = False\<rparr>"
proof -
  let ?occupied = "[Str MX, Null, Null, Null, Null, Null, Null, Null, Null]"
  let ?won = "[Str MX, Str MX, Str MX, Str MO, Str MO, Null, Null, Null, Null]"
  let ?drawn = "[Str MX, Str MO, Str MX, Str MX, Str MO, Str MO, Str MO, Str MX, Str MX]"
  have 1: "truthy (read ?occupied 0)" by (simp add: read_def)
  have 2: "evaluate ?won = Won MX [0, 1, 2]"
    by (simp add: evaluate_def calculateWinner_def lines_def read_def)
  have 3: "evaluate ?drawn = Draw"
    by (simp add: evaluate_def calculateWinner_def lines_def read_def isDraw_def isBoardFull_def)
  from 1 have a: "handleSquareClick \<lparr>squares = ?occupied, xIsNext = False\<rparr> 0
      = \<lparr>squares = ?occupied, xIsNext = False\<rparr>"
    by (intro handleSquareClick_noop) simp
  from 2 have b: "handleSquareClick \<lparr>squares = ?won, xIsNext = False\<rparr> 5
      = \<lparr>squares = ?won, xIsNext = False\<rparr>"
    by (intro handleSquareClick_noop) simp
  from 3 have c: "handleSquareClick \<lparr>squares = ?drawn, xIsNext = False\<rparr> 4
      = \<lparr>squares = ?drawn, xIsNext = False\<rparr>"
    by (intro handleSquareClick_noop) simp
  from 1 2 3 a b c show ?thesis by blast
qed

text \<open>
  Claim C4. A click on an empty square of the board while the game is in progress gives
  the state whose board has the current player's mark at the target index and every
  other cell as before, and whose turn is flipped. The state has no other component.
\<close>

theorem handleSquareClick_places_mark:
  assumes "i < length (squares s)"
    and "\<not> truthy (read (squares s) i)"
    and "evaluate (squares s) = InProgress"
  shows "handleSquareClick s i =
           \<lparr>squares = (squares s)[i := Str (currentPlayer s)], xIsNext = \<not> xIsNext s\<rparr>
         \<and> read (squares (handleSquareClick s i)) i = Str (if xIsNext s then MX else MO)
         \<and> (\<forall>j. j \<noteq> i \<longrightarrow>
               read (squares (handleSquareClick s i)) j = read (squares s) j)
         \<and> length (squares (handleSquareClick s i)) = length (squares s)
         \<and> xIsNext (handleSquareClick s i) = (\<not> xIsNext s)"
proof -
  from assms(3) have "\<not> gameOver (squares s)" by (simp add: gameOver_iff)
  with assms(2) have step: "handleSquareClick s i =
      \<lparr>squares = store (squares s) i (Str (currentPlayer s)), xIsNext = \<not> xIsNext s\<rparr>"
    by (simp add: handleSquareClick_def)
  from assms(1) have st: "store (squares s) i v = (squares s)[i := v]" for v
    by (simp add: store_def)
  show ?thesis
    unfolding step using assms(1) by (simp add: currentPlayer_def st read_def)
qed

text \<open>C4 at O's first move: X holds the corner, O takes the centre.\<close>

theorem handleSquareClick_places_mark_witness:
  "4 < length [Str MX, Null, Null, Null, Null, Null, Null, Null, Null]
   \<and> \<not> truthy (read [Str MX, Null, Null, Null, Null, Null, Null, Null, Null] 4)
   \<and> evaluate [Str MX, Null, Null, Null, Null, Null, Null, Null, Null] = InProgress
   \<and> handleSquareClick
        \<lparr>squares = [Str MX, Null, Null, Null, Null, Null, Null, Null, Null], xIsNext = False\<rparr> 4
      = \<lparr>squares = [Str MX, Null, Null, Null, Str MO, Null, Null, Null, Null], xIsNext = True\<rparr>"
proof -
  let ?b = "[Str MX, Null, Null, Null, Null, Null, Null, Null, Null]"
  let ?s = "\<lparr>squares = ?b, xIsNext = False\<rparr>"
  have 1: "4 < length (squares ?s)" by simp
  have 2: "\<not> truthy (read (squares ?s) 4)" by (simp add: read_def)
  have 3: "evaluate (squares ?s) = InProgress"
    by (simp add: evaluate_def calculateWinner_def lines_def read_def isDraw_def isBoardFull_def)
  from handleSquareClick_places_mark[OF 1 2 3] have "handleSquareClick ?s 4 =
      \<lparr>squares = (squares ?s)[4 := Str (currentPlayer ?s)], xIsNext = \<not> xIsNext ?s\<rparr>"
    by (rule conjunct1)
  then have "handleSquareClick ?s 4 =
      \<lparr>squares = [Str MX, Null, Null, Null, Str MO, Null, Null, Null, Null], xIsNext = True\<rparr>"
    by (simp add: currentPlayer_def)
  with 1 2 3 show ?thesis by simp
qed

text \<open>
  Claim C5. The table of \<^verbatim>\<open>calculateWinner\<close> is the eight winning lines in the order
  rows top to bottom, columns left to right, main diagonal, anti-diagonal. The result is
  the mark and the triple of the first line in that order whose three cells hold the
  same mark; when no line of the table is completed there is no winner.
\<close>

theorem calculateWinner_scan_order_first_match:
  "map (\<lambda>(a, b, c). [a, b, c]) lines = specLineOrder
   \<and> length lines = 8
   \<and> (\<forall>k a b c.
         k < length lines \<and> lines ! k = (a, b, c) \<and> completed sq (a, b, c)
           \<and> (\<forall>j<k. \<not> completed sq (lines ! j))
         \<longrightarrow> (\<exists>m. allThree sq (a, b, c) (Str m)
                \<and> calculateWinner sq = \<lparr>winner = Str m, line = [a, b, c]\<rparr>
                \<and> evaluate sq = Won m [a, b, c]))
   \<and> ((\<forall>k<length lines. \<not> completed sq (lines ! k))
         \<longrightarrow> calculateWinner sq = \<lparr>winner = Null, line = []\<rparr>)"
proof (intro conjI allI impI)
  show "map (\<lambda>(a, b, c). [a, b, c]) lines = specLineOrder"
    by code_simp
  show "length lines = 8" by (simp add: lines_def)
next
  assume "\<forall>k<length lines. \<not> completed sq (lines ! k)"
  then have "\<forall>l\<in>set lines. \<not> lineMatches sq l"
    by (simp add: lineMatches_eq all_set_conv_all_nth)
  then show "calculateWinner sq = \<lparr>winner = Null, line = []\<rparr>"
    unfolding calculateWinner_def by (rule scanLines_no_winner)
next
  fix k a b c
  assume h: "k < length lines \<and> lines ! k = (a, b, c) \<and> completed sq (a, b, c)
           \<and> (\<forall>j<k. \<not> completed sq (lines ! j))"
  then have "find (completed sq) lines = Some (a, b, c)"
    unfolding find_Some_iff by (intro exI[of _ k]) simp
  then have r: "calculateWinner sq = \<lparr>winner = read sq a, line = [a, b, c]\<rparr>"
    by (simp add: calculateWinner_first)
  from h obtain m where m: "allThree sq (a, b, c) (Str m)"
    unfolding completed_iff by blast
  with r have "calculateWinner sq = \<lparr>winner = Str m, line = [a, b, c]\<rparr>" by simp
  moreover from this have "evaluate sq = Won m [a, b, c]" by (simp add: evaluate_Won_iff)
  ultimately show "\<exists>m. allThree sq (a, b, c) (Str m)
                \<and> calculateWinner sq = \<lparr>winner = Str m, line = [a, b, c]\<rparr>
                \<and> evaluate sq = Won m [a, b, c]"
    using m by blast
qed

text \<open>
  C5 at a board where X has completed the left column and the main diagonal: no row is
  completed, so the left column (position 3 of the table) is reported.
\<close>

theorem calculateWinner_scan_order_first_match_witness:
  "lines ! 3 = (0, 3, 6)
   \<and> completed [Str MX, Str MO, Str MO, Str MX, Str MX, Str MO, Str MX, Str MO, Str MX] (0, 3, 6)
   \<and> completed [Str MX, Str MO, Str MO, Str MX, Str MX, Str MO, Str MX, Str MO, Str MX] (0, 4, 8)
   \<and> \<not> completed [Str MX, Str MO, Str MO, Str MX, Str MX, Str MO, Str MX, Str MO, Str MX] (lines ! 0)
   \<and> \<not> completed [Str MX, Str MO, Str MO, Str MX, Str MX, Str MO, Str MX, Str MO, Str MX] (lines ! 1)
   \<and> \<not> completed [Str MX, Str MO, Str MO, Str MX, Str MX, Str MO, Str MX, Str MO, Str MX] (lines ! 2)
   \<and> calculateWinner [Str MX, Str MO, Str MO, Str MX, Str MX, Str MO, Str MX, Str MO, Str MX]
        = \<lparr>winner = Str MX, line = [0, 3, 6]\<rparr>
   \<and> evaluate [Str MX, Str MO, Str MO, Str MX, Str MX, Str MO, Str MX, Str MO, Str MX]
        = Won MX [0, 3, 6]"
proof -
  let ?b = "[Str MX, Str MO, Str MO, Str MX, Str MX, Str MO, Str MX, Str MO, Str MX]"
  have 1: "3 < length lines" "lines ! 3 = (0, 3, 6)" by (simp_all add: lines_def)
  have 2: "completed ?b (0, 3, 6)" "completed ?b (0, 4, 8)"
    by (simp_all add: completed_def read_def)
  have 3: "\<not> completed ?b (lines ! 0)" "\<not> completed ?b (lines ! 1)"
    "\<not> completed ?b (lines ! 2)"
    by (simp_all add: lines_def completed_def read_def)
  have 4: "\<forall>j<3. \<not> completed ?b (lines ! j)"
  proof (intro allI impI)
    fix j :: nat assume "j < 3"
    then have "j = 0 \<or> j = 1 \<or> j = 2" by arith
    with 3 show "\<not> completed ?b (lines ! j)" by auto
  qed
  from calculateWinner_scan_order_first_match[of ?b] 1 2 4 obtain m where
    m: "allThree ?b (0, 3, 6) (Str m)"
      "calculateWinner ?b = \<lparr>winner = Str m, line = [0, 3, 6]\<rparr>"
      "evaluate ?b = Won m [0, 3, 6]"
    by blast
  from m(1) have "m = MX" by (simp add: read_def)
  with m 1 2 3 show ?thesis by blast
qed

text \<open>
  Claim C6. On a nine-cell board with no completed line, the outcome is a draw when all
  nine cells are filled and in progress otherwise.
\<close>

theorem evaluate_no_line_draw_or_in_progress:
  assumes "length sq = 9" and "Hole \<notin> set sq" and "\<forall>l\<in>set lines. \<not> completed sq l"
  shows "evaluate sq = (if (\<forall>i<9. truthy (read sq i)) then Draw else InProgress)"
proof -
  from assms(3) have "\<not> (\<exists>l\<in>set lines. lineMatches sq l)" by (simp add: lineMatches_eq)
  then have w: "calculateWinner sq = \<lparr>winner = Null, line = []\<rparr>"
    unfolding calculateWinner_def by (intro scanLines_no_winner) blast
  from assms(2) have "isBoardFull sq \<longleftrightarrow> (\<forall>c\<in>set sq. truthy c)"
    unfolding isBoardFull_def list_all_iff by metis
  also have "\<dots> \<longleftrightarrow> (\<forall>i<9. truthy (read sq i))"
    using assms(1) by (auto simp: read_def all_set_conv_all_nth)
  finally show ?thesis using w by (simp add: evaluate_def isDraw_def)
qed

text \<open>C6 at a full board without a line, and at the same board with one cell empty.\<close>

theorem evaluate_no_line_draw_or_in_progress_witness:
  "length [Str MX, Str MO, Str MX, Str MX, Str MO, Str MO, Str MO, Str MX, Str MX] = 9
   \<and> Hole \<notin> set [Str MX, Str MO, Str MX, Str MX, Str MO, Str MO, Str MO, Str MX, Str MX]
   \<and> list_all (\<lambda>l. \<not> completed
        [Str MX, Str MO, Str MX, Str MX, Str MO, Str MO, Str MO, Str MX, Str MX] l) lines
   \<and> evaluate [Str MX, Str MO, Str MX, Str MX, Str MO, Str MO, Str MO, Str MX, Str MX] = Draw
   \<and> length [Str MX, Str MO, Str MX, Str MX, Str MO, Str MO, Str MO, Str MX, Null] = 9
   \<and> Hole \<notin> set [Str MX, Str MO, Str MX, Str MX, Str MO, Str MO, Str MO, Str MX, Null]
   \<and> list_all (\<lambda>l. \<not> completed
        [Str MX, Str MO, Str MX, Str MX, Str MO, Str MO, Str MO, Str MX, Null] l) lines
   \<and> evaluate [Str MX, Str MO, Str MX, Str MX, Str MO, Str MO, Str MO, Str MX, Null]
        = InProgress"
proof -
  let ?d = "[Str MX, Str MO, Str MX, Str MX, Str MO, Str MO, Str MO, Str MX, Str MX]"
  let ?p = "[Str MX, Str MO, Str MX, Str MX, Str MO, Str MO, Str MO, Str MX, Null]"
  have d: "length ?d = 9" "Hole \<notin> set ?d" "list_all (\<lambda>l. \<not> completed ?d l) lines"
    by (simp_all add: lines_def completed_def read_def)
  have p: "length ?p = 9" "Hole \<notin> set ?p" "list_all (\<lambda>l. \<not> completed ?p l) lines"
    by (simp_all add: lines_def completed_def read_def)
  have full: "\<forall>i<9. truthy (read ?d i)"
  proof (intro allI impI)
    fix i :: nat assume "i < 9"
    then have "i = 0 \<or> i = 1 \<or> i = 2 \<or> i = 3 \<or> i = 4 \<or> i = 5 \<or> i = 6 \<or> i = 7 \<or> i = 8"
      by arith
    then show "truthy (read ?d i)" by (auto simp: read_def)
  qed
  have notfull: "\<not> (\<forall>i<9. truthy (read ?p i))"
  proof
    assume "\<forall>i<9. truthy (read ?p i)"
    then have "truthy (read ?p 8)" by simp
    then show False by (simp add: read_def)
  qed
  from d have "evaluate ?d = (if (\<forall>i<9. truthy (read ?d i)) then Draw else InProgress)"
    by (intro evaluate_no_line_draw_or_in_progress) (simp_all add: list_all_iff)
  with full have 1: "evaluate ?d = Draw" by simp
  from p have "evaluate ?p = (if (\<forall>i<9. truthy (read ?p i)) then Draw else InProgress)"
    by (intro evaluate_no_line_draw_or_in_progress) (simp_all add: list_all_iff)
  with notfull have 2: "evaluate ?p = InProgress" by simp
  from d p 1 2 show ?thesis by blast
qed

text \<open>
  Claim C7. On every board reached from the initial state by clicks on the nine
  squares, there are at least as many X as O, and at most one more.
\<close>

theorem reachable_mark_counts:
  assumes "legalMoves moves"
  shows "count_list (squares (play moves)) (Str MO) \<le> count_list (squares (play moves)) (Str MX)
       \<and> count_list (squares (play moves)) (Str MX)
           \<le> count_list (squares (play moves)) (Str MO) + 1"
  using play_counts[of moves] by simp

text \<open>C7 after three clicks: two X, one O.\<close>

theorem reachable_mark_counts_witness:
  "legalMoves [0, 3, 1]
   \<and> count_list (squares (play [0, 3, 1])) (Str MO) \<le> count_list (squares (play [0, 3, 1])) (Str MX)
   \<and> count_list (squares (play [0, 3, 1])) (Str MX)
           \<le> count_list (squares (play [0, 3, 1])) (Str MO) + 1"
proof -
  have h: "legalMoves [0, 3, 1]" by (simp add: legalMoves_def)
  from h reachable_mark_counts[OF h] show ?thesis by (rule conjI)
qed

text \<open>
  Claim C8. \<^verbatim>\<open>resetGame\<close>, from any state, gives the initial state: nine empty cells and
  X to move, the state a game starts in.
\<close>

theorem resetGame_initial: "resetGame s = initialState
    \<and> squares (resetGame s) = [Null, Null, Null, Null, Null, Null, Null, Null, Null]
    \<and> xIsNext (resetGame s) \<and> currentPlayer (resetGame s) = MX
    \<and> play [] = initialState"
  by (simp add: resetGame_def initialState_def play_def currentPlayer_def eval_nat_numeral)

text \<open>
  Claim C9. The clicks 0, 3, 1, 4, 2 from the initial state (X at 0, O at 3, X at 1,
  O at 4, X at 2) end with winner X and winning line [0, 1, 2].
\<close>

theorem scenario_top_row_win:
  "squares (play [0, 3, 1, 4, 2]) = [Str MX, Str MX, Str MX, Str MO, Str MO, Null, Null, Null, Null]
   \<and> evaluate (squares (play [0, 3, 1, 4, 2])) = Won MX [0, 1, 2]
   \<and> calculateWinner (squares (play [0, 3, 1, 4, 2])) = \<lparr>winner = Str MX, line = [0, 1, 2]\<rparr>"
  by code_simp

text \<open>
  Claim C10. \<^verbatim>\<open>calculateWinner\<close> always returns a result object. A winner \<open>W\<close> comes
  with a line that is one of the eight triples, all three cells of which hold \<open>W\<close>; the
  winner is never \<^verbatim>\<open>undefined\<close>; and no winner comes as \<^verbatim>\<open>null\<close> with the empty line.
\<close>

theorem calculateWinner_well_formed:
  "(winner (calculateWinner sq) = Str W \<longrightarrow>
      (\<exists>a b c. (a, b, c) \<in> set lines \<and> line (calculateWinner sq) = [a, b, c]
          \<and> allThree sq (a, b, c) (Str W)))
   \<and> (winner (calculateWinner sq) = Null \<or> winner (calculateWinner sq) = Str MX \<or> winner (calculateWinner sq) = Str MO)
   \<and> (winner (calculateWinner sq) = Null \<longrightarrow> line (calculateWinner sq) = [])"
proof (cases sq rule: calculateWinner_cases)
  case none
  then show ?thesis by simp
next
  case (some a b c m)
  then show ?thesis by (cases m) auto
qed

text \<open>C10 at a board X has won, and at a board with a single mark.\<close>

theorem calculateWinner_well_formed_witness:
  "winner (calculateWinner [Str MX, Str MO, Str MO, Str MX, Str MX, Str MO, Str MX, Str MO, Str MX])
     = Str MX
   \<and> (\<exists>a b c. (a, b, c) \<in> set lines
        \<and> line (calculateWinner
              [Str MX, Str MO, Str MO, Str MX, Str MX, Str MO, Str MX, Str MO, Str MX]) = [a, b, c]
        \<and> allThree [Str MX, Str MO, Str MO, Str MX, Str MX, Str MO, Str MX, Str MO, Str MX]
              (a, b, c) (Str MX))
   \<and> winner (calculateWinner [Str MX, Null, Null, Null, Null, Null, Null, Null, Null]) = Null
   \<and> line (calculateWinner [Str MX, Null, Null, Null, Null, Null, Null, Null, Null]) = []"
proof -
  let ?w = "[Str MX, Str MO, Str MO, Str MX, Str MX, Str MO, Str MX, Str MO, Str MX]"
  let ?n = "[Str MX, Null, Null, Null, Null, Null, Null, Null, Null]"
  have 1: "winner (calculateWinner ?w) = Str MX"
    by (simp add: calculateWinner_def lines_def read_def)
  have 2: "winner (calculateWinner ?n) = Null"
    by (simp add: calculateWinner_def lines_def read_def)
  from 1 calculateWinner_well_formed[of ?w MX] have 3: "\<exists>a b c. (a, b, c) \<in> set lines
      \<and> line (calculateWinner ?w) = [a, b, c] \<and> allThree ?w (a, b, c) (Str MX)"
    by blast
  from 2 calculateWinner_well_formed[of ?n MX] have 4: "line (calculateWinner ?n) = []" by blast
  from 1 2 3 4 show ?thesis by blast
qed

end
